theory Spec2Isabelle
  imports Main
begin

section \<open>JavaScript strings\<close>

text \<open>
  A JavaScript string is a finite sequence of UTF-16 code units. The parser only ever looks
  at the value of a code unit (is it white space, a decimal digit, a hyphen, a plus sign, a
  comma), so a code unit is modelled by its numeric value. \<open>lit\<close> turns a literal of
  the theory into the code units of the corresponding JavaScript literal.
\<close>

type_synonym code_unit = nat
type_synonym jsstring = "code_unit list"

definition lit :: "string \<Rightarrow> jsstring" where
  "lit cs = map of_char cs"

definition comma :: code_unit where "comma = 0x2C"
definition hyphen :: code_unit where "hyphen = 0x2D"
definition plus_sign :: code_unit where "plus_sign = 0x2B"

text \<open>
  White space as \<open>String.prototype.trim\<close>, the pattern class \<open>\s\<close> and the prefix
  stripping of \<open>parseInt\<close> see it: the WhiteSpace and LineTerminator code points of
  ECMAScript.
\<close>

definition is_ws :: "code_unit \<Rightarrow> bool" where
  "is_ws c \<longleftrightarrow>
     c = 0x9 \<or> c = 0xA \<or> c = 0xB \<or> c = 0xC \<or> c = 0xD \<or> c = 0x20 \<or> c = 0xA0 \<or>
     c = 0x1680 \<or> (0x2000 \<le> c \<and> c \<le> 0x200A) \<or> c = 0x2028 \<or> c = 0x2029 \<or>
     c = 0x202F \<or> c = 0x205F \<or> c = 0x3000 \<or> c = 0xFEFF"

text \<open>The pattern class \<open>\d\<close> and the radix-10 digits of \<open>parseInt\<close>: \<open>0\<close> to \<open>9\<close>.\<close>

definition is_digit :: "code_unit \<Rightarrow> bool" where
  "is_digit c \<longleftrightarrow> 0x30 \<le> c \<and> c \<le> 0x39"

definition trim :: "jsstring \<Rightarrow> jsstring" where
  "trim s = rev (dropWhile is_ws (rev (dropWhile is_ws s)))"

text \<open>
  \<open>s.split(',')\<close>: the segments between the commas, empty ones included; \<open>cur\<close> is the
  segment being read.
\<close>

fun split_comma :: "jsstring \<Rightarrow> jsstring \<Rightarrow> jsstring list" where
  "split_comma cur [] = [cur]"
| "split_comma cur (c # cs) =
     (if c = comma then cur # split_comma [] cs else split_comma (cur @ [c]) cs)"

section \<open>parseInt with radix 10\<close>

text \<open>
  The value of a run of decimal digits, most significant first: the mathematical integer
  that \<open>parseInt\<close> reads, before it is made a JavaScript number (\<open>number_of\<close> below does
  that).
\<close>

definition digits_val :: "jsstring \<Rightarrow> int" where
  "digits_val ds = foldl (\<lambda>acc c. 10 * acc + (int c - 0x30)) 0 ds"

text \<open>
  \<open>parseInt(str, 10)\<close>: leading white space is skipped, one sign is read, then the longest
  run of digits; whatever follows is ignored. No digit at all gives \<open>NaN\<close>, which is
  \<open>None\<close> here.
\<close>

definition parseInt :: "jsstring \<Rightarrow> int option" where
  "parseInt str =
     (let S = dropWhile is_ws str;
          sign = (case S of [] \<Rightarrow> 1 | c # _ \<Rightarrow> if c = hyphen then - 1 else (1::int));
          S' = (case S of [] \<Rightarrow> [] | c # r \<Rightarrow> if c = plus_sign \<or> c = hyphen then r else S);
          Z = takeWhile is_digit S'
      in if Z = [] then None else Some (sign * digits_val Z))"

section \<open>The three patterns\<close>

text \<open>
  Each pattern is anchored at both ends and its pieces (digits, white space, the hyphen) are
  disjoint classes of code units, so a match is unique and is found by reading the greedy
  runs from left to right. A match returns the captured groups, \<open>None\<close> is \<open>null\<close>.
\<close>

text \<open>\<^verbatim>\<open>/^(\d+)\s*-\s*(\d+)$/\<close>\<close>

definition match_closed :: "jsstring \<Rightarrow> (jsstring \<times> jsstring) option" where
  "match_closed part =
     (let g1 = takeWhile is_digit part;
          r1 = dropWhile is_ws (dropWhile is_digit part)
      in if g1 = [] then None
         else (case r1 of
                 [] \<Rightarrow> None
               | c # r2 \<Rightarrow>
                   if c \<noteq> hyphen then None
                   else (let r3 = dropWhile is_ws r2;
                             g2 = takeWhile is_digit r3
                         in if g2 \<noteq> [] \<and> dropWhile is_digit r3 = [] then Some (g1, g2)
                            else None)))"

text \<open>\<^verbatim>\<open>/^(\d+)\s*-\s*$/\<close>\<close>

definition match_open_end :: "jsstring \<Rightarrow> jsstring option" where
  "match_open_end part =
     (let g1 = takeWhile is_digit part;
          r1 = dropWhile is_ws (dropWhile is_digit part)
      in if g1 = [] then None
         else (case r1 of
                 [] \<Rightarrow> None
               | c # r2 \<Rightarrow>
                   if c = hyphen \<and> dropWhile is_ws r2 = [] then Some g1 else None))"

text \<open>\<^verbatim>\<open>/^\s*-\s*(\d+)$/\<close>\<close>

definition match_open_start :: "jsstring \<Rightarrow> jsstring option" where
  "match_open_start part =
     (case dropWhile is_ws part of
        [] \<Rightarrow> None
      | c # r1 \<Rightarrow>
          if c \<noteq> hyphen then None
          else (let r2 = dropWhile is_ws r1;
                    g1 = takeWhile is_digit r2
                in if g1 \<noteq> [] \<and> dropWhile is_digit r2 = [] then Some g1 else None))"

section \<open>parseRanges (src/parseRanges.js)\<close>

text \<open>
  Numbers. \<open>maxPages\<close> is a page count: an integer. This rendering of the code computes with
  integers, a list and a set: \<open>parseInt\<close> returns the integer it read and the counter of
  the inner loop is an integer. The code computes with JavaScript numbers and an array of
  bounded length; the section on the numeric side below renders it with those, and
  \<open>parseRanges_js_link\<close> shows that both return the same pages for a bound
  \<open>maxPages \<ge> 0\<close> and a specification of \<open>p\<close> parts with \<open>p * maxPages < 2\<^sup>3\<^sup>2\<close>. A
  theorem about this rendering that names a page by the exact value of a digit run (C2, C5)
  carries the hypothesis \<open>maxPages < 2\<^sup>5\<^sup>3\<close>, below which a JavaScript number holds every
  page exactly.
\<close>

text \<open>\<^verbatim>\<open>for(let i=a;i<=b;i++) out.push(i);\<close>\<close>

function push_range :: "int \<Rightarrow> int \<Rightarrow> int list \<Rightarrow> int list" where
  "push_range i b out = (if i \<le> b then push_range (i + 1) b (out @ [i]) else out)"
  by pat_completeness auto
termination
  by (relation "measure (\<lambda>(i, b, out). nat (b + 1 - i))") auto

declare push_range.simps [simp del]

text \<open>
  The body of the loop over the parts: \<open>out\<close> before the part, \<open>out\<close> after it. The
  \<^verbatim>\<open>continue\<close> of the \<open>NaN\<close> test leaves \<open>out\<close> as it is.
\<close>

definition range_bounds :: "int \<Rightarrow> jsstring \<Rightarrow> (int option \<times> int option) option" where
  "range_bounds maxPages part =
     (let closedRange = match_closed part;
          openEndRange = match_open_end part;
          openStartRange = match_open_start part
      in if closedRange \<noteq> None \<or> openEndRange \<noteq> None \<or> openStartRange \<noteq> None
         then Some (case closedRange of
                      Some (g1, g2) \<Rightarrow> (parseInt g1, parseInt g2)
                    | None \<Rightarrow>
                       (case openEndRange of
                          Some g1 \<Rightarrow> (parseInt g1, Some maxPages)
                        | None \<Rightarrow>
                           (case openStartRange of
                              Some g1 \<Rightarrow> (Some 1, parseInt g1)
                            | None \<Rightarrow> (Some 1, Some maxPages))))
         else None)"

definition expand_range :: "int \<Rightarrow> int \<Rightarrow> int \<Rightarrow> int list \<Rightarrow> int list" where
  "expand_range maxPages a0 b0 out =
     (let (a, b) = (if a0 > b0 then (b0, a0) else (a0, b0));
          a = max 1 a;
          b = min maxPages b
      in push_range a b out)"

text \<open>
  The branch of a part that matches no pattern:
  \<^verbatim>\<open>const n = parseInt(part,10); if(!Number.isNaN(n) && n>=1 && n<=maxPages) out.push(n);\<close>
\<close>

definition single_value :: "int \<Rightarrow> jsstring \<Rightarrow> int list \<Rightarrow> int list" where
  "single_value maxPages part out =
     (case parseInt part of
        None \<Rightarrow> out
      | Some n \<Rightarrow> if n \<ge> 1 \<and> n \<le> maxPages then out @ [n] else out)"

definition part_step :: "int \<Rightarrow> jsstring \<Rightarrow> int list \<Rightarrow> int list" where
  "part_step maxPages part out =
     (case range_bounds maxPages part of
        Some (a, b) \<Rightarrow>
          (case (a, b) of
             (Some a, Some b) \<Rightarrow> expand_range maxPages a b out
           | _ \<Rightarrow> out)
      | None \<Rightarrow> single_value maxPages part out)"

text \<open>\<^verbatim>\<open>for(const part of ...)\<close>\<close>

fun for_parts :: "int \<Rightarrow> jsstring list \<Rightarrow> int list \<Rightarrow> int list" where
  "for_parts maxPages [] out = out"
| "for_parts maxPages (part # parts) out = for_parts maxPages parts (part_step maxPages part out)"

text \<open>
  \<^verbatim>\<open>out.filter(p=> (seen.has(p)?false:(seen.add(p),true)))\<close>: the filter walks \<open>out\<close>
  from the left and the callback updates \<open>seen\<close>.
\<close>

fun filter_seen :: "int set \<Rightarrow> int list \<Rightarrow> int list" where
  "filter_seen seen [] = []"
| "filter_seen seen (p # ps) =
     (if p \<in> seen then filter_seen seen ps else p # filter_seen (insert p seen) ps)"

text \<open>\<^verbatim>\<open>s.split(',').map(x=>x.trim()).filter(Boolean)\<close>\<close>

definition parts_of :: "jsstring \<Rightarrow> jsstring list" where
  "parts_of s = filter (\<lambda>x. x \<noteq> []) (map trim (split_comma [] s))"

text \<open>The working sequence: \<open>out\<close> when the loop over the parts is over.\<close>

definition working :: "jsstring \<Rightarrow> int \<Rightarrow> int list" where
  "working s maxPages = for_parts maxPages (parts_of s) []"

definition parseRanges :: "jsstring \<Rightarrow> int \<Rightarrow> int list" where
  "parseRanges str maxPages =
     (let s = trim str
      in if s = [] then [] else filter_seen {} (working s maxPages))"

section \<open>The copy of parseRanges in src/app.js\<close>

text \<open>
  The second definition knows one pattern only, the closed range; every other part goes to
  the single-value branch. The rest of its text is that of the standalone module.
\<close>

definition part_step_app :: "int \<Rightarrow> jsstring \<Rightarrow> int list \<Rightarrow> int list" where
  "part_step_app maxPages part out =
     (case match_closed part of
        Some (g1, g2) \<Rightarrow>
          (case (parseInt g1, parseInt g2) of
             (Some a, Some b) \<Rightarrow> expand_range maxPages a b out
           | _ \<Rightarrow> out)
      | None \<Rightarrow> single_value maxPages part out)"

fun for_parts_app :: "int \<Rightarrow> jsstring list \<Rightarrow> int list \<Rightarrow> int list" where
  "for_parts_app maxPages [] out = out"
| "for_parts_app maxPages (part # parts) out =
     for_parts_app maxPages parts (part_step_app maxPages part out)"

definition parseRanges_app :: "jsstring \<Rightarrow> int \<Rightarrow> int list" where
  "parseRanges_app str maxPages =
     (let s = trim str
      in if s = [] then [] else filter_seen {} (for_parts_app maxPages (parts_of s) []))"

section \<open>First-occurrence order, in the words of the specification\<close>

text \<open>
  The specification's deduplication: scanning left to right, an entry is kept exactly when
  its value has not appeared at an earlier position. This definition follows those words
  and not the code; \<open>filter_seen\<close> above is the code.
\<close>

definition first_occurrence :: "int list \<Rightarrow> int list" where
  "first_occurrence xs =
     map (\<lambda>i. xs ! i) (filter (\<lambda>i. xs ! i \<notin> set (take i xs)) [0..<length xs])"

section \<open>The numeric side as JavaScript computes it\<close>

text \<open>
  The definitions above compute with integers. The code computes with JavaScript numbers
  (IEEE 754 doubles), the counter of its inner loop included, and its array has a length
  limit. This section renders the same source text a second time, with those numbers:
  \<open>parseInt\<close> returns the double nearest to the integer it read, \<^verbatim>\<open>i++\<close> rounds, and
  \<^verbatim>\<open>out.push\<close> raises \<open>RangeError\<close> on a full array. The strings, the patterns and the
  order of the steps are those of the first rendering. \<open>parseRanges_js_link\<close> below shows
  that the two renderings return the same pages whenever the array is large enough for the
  bound and the number of parts; the claim about faults (C4) is settled on this one.

  The numbers that occur. The finite ones are all integers (what \<open>parseInt\<close> returns, 1,
  \<open>maxPages\<close>, and what \<^verbatim>\<open>i++\<close> makes of them) and are held by their value; the two
  infinities are values of their own; \<open>NaN\<close> stays \<open>None\<close>. \<open>maxPages\<close> is the value of
  the number that the caller passes.
\<close>

datatype jsnum = NegInf | Fin int | PosInf

datatype js_error = RangeError

text \<open>
  \<^verbatim>\<open>a <= b\<close> on numbers that are not \<open>NaN\<close>; the code's \<^verbatim>\<open>a>b\<close> is its negation, and
  \<open>Math.max\<close> and \<open>Math.min\<close> choose by it.
\<close>

fun js_le :: "jsnum \<Rightarrow> jsnum \<Rightarrow> bool" where
  "js_le (Fin a) (Fin b) = (a \<le> b)"
| "js_le NegInf _ = True"
| "js_le _ PosInf = True"
| "js_le _ _ = False"

definition js_max :: "jsnum \<Rightarrow> jsnum \<Rightarrow> jsnum" where
  "js_max x y = (if js_le x y then y else x)"

definition js_min :: "jsnum \<Rightarrow> jsnum \<Rightarrow> jsnum" where
  "js_min x y = (if js_le x y then x else y)"

text \<open>
  The double nearest to a non-negative integer, ties to even. Below \<open>2\<^sup>5\<^sup>3\<close> it is the
  integer itself. Above, a double keeps the 53 leading bits: with \<open>e\<close> the number of bits
  beyond them, the integer is \<open>q * 2\<^sup>e + r\<close>, and \<open>q\<close> is rounded up when \<open>r\<close> is more
  than half of \<open>2\<^sup>e\<close>, or exactly half with \<open>q\<close> odd. A result of \<open>2\<^sup>1\<^sup>0\<^sup>2\<^sup>4\<close> or more is
  \<open>Infinity\<close>. (ECMAScript lets \<open>parseInt\<close> replace the digits after the 20th by zeros
  before rounding; the theorems below only use that an integer below \<open>2\<^sup>5\<^sup>3\<close> is kept and
  that a larger one becomes at least \<open>2\<^sup>5\<^sup>3\<close>, which holds either way.)
\<close>

fun bit_length :: "nat \<Rightarrow> nat" where
  "bit_length n = (if n = 0 then 0 else Suc (bit_length (n div 2)))"

declare bit_length.simps [simp del]

definition to_double :: "nat \<Rightarrow> jsnum" where
  "to_double n =
     (if n < 2 ^ 53 then Fin (int n)
      else (let e = bit_length n - 53;
                q = n div 2 ^ e;
                r = n mod 2 ^ e;
                q' = (if 2 * r > 2 ^ e \<or> (2 * r = 2 ^ e \<and> odd q) then q + 1 else q);
                m = q' * 2 ^ e
            in if m \<ge> 2 ^ 1024 then PosInf else Fin (int m)))"

text \<open>
  The number of an integer of either sign, and \<open>parseInt\<close> as the code sees it: the
  number of the integer that \<open>parseInt\<close> above reads.
\<close>

definition number_of :: "int \<Rightarrow> jsnum" where
  "number_of v =
     (if 0 \<le> v then to_double (nat v)
      else (case to_double (nat (- v)) of Fin m \<Rightarrow> Fin (- m) | _ \<Rightarrow> NegInf))"

definition parseInt_js :: "jsstring \<Rightarrow> jsnum option" where
  "parseInt_js str = map_option number_of (parseInt str)"

text \<open>
  \<^verbatim>\<open>i++\<close>: the number of \<open>i + 1\<close>, which is \<open>i\<close> again from \<open>2\<^sup>5\<^sup>3\<close> on.
\<close>

fun js_succ :: "jsnum \<Rightarrow> jsnum" where
  "js_succ (Fin n) = number_of (n + 1)"
| "js_succ x = x"

text \<open>
  An array holds at most \<open>2\<^sup>3\<^sup>2 - 1\<close> elements: \<^verbatim>\<open>push\<close> on an array of that
  length raises \<open>RangeError\<close>, since the length cannot become \<open>2\<^sup>3\<^sup>2\<close>. Limits that an
  engine or the machine's memory set below that are not modelled.
\<close>

definition max_length :: nat where
  "max_length = 2 ^ 32 - 1"

definition push_js :: "jsnum list \<Rightarrow> jsnum \<Rightarrow> js_error + jsnum list" where
  "push_js out x = (if length out < max_length then Inr (out @ [x]) else Inl RangeError)"

text \<open>
  \<^verbatim>\<open>for(let i=a;i<=b;i++) out.push(i);\<close> with the push written out. Each turn makes
  \<open>out\<close> longer, so the loop ends, by the test or by the error, even where the counter
  no longer advances.
\<close>

function push_range_js :: "jsnum \<Rightarrow> jsnum \<Rightarrow> jsnum list \<Rightarrow> js_error + jsnum list" where
  "push_range_js i b out =
     (if js_le i b
      then (if length out < max_length then push_range_js (js_succ i) b (out @ [i])
            else Inl RangeError)
      else Inr out)"
  by pat_completeness auto
termination
  by (relation "measure (\<lambda>(i, b, out). max_length - length out)") auto

declare push_range_js.simps [simp del]

text \<open>
  The loop body and the function, as above; a \<open>RangeError\<close> leaves the loop over the
  parts and the function.
\<close>

definition range_bounds_js :: "int \<Rightarrow> jsstring \<Rightarrow> (jsnum option \<times> jsnum option) option" where
  "range_bounds_js maxPages part =
     (let closedRange = match_closed part;
          openEndRange = match_open_end part;
          openStartRange = match_open_start part
      in if closedRange \<noteq> None \<or> openEndRange \<noteq> None \<or> openStartRange \<noteq> None
         then Some (case closedRange of
                      Some (g1, g2) \<Rightarrow> (parseInt_js g1, parseInt_js g2)
                    | None \<Rightarrow>
                       (case openEndRange of
                          Some g1 \<Rightarrow> (parseInt_js g1, Some (Fin maxPages))
                        | None \<Rightarrow>
                           (case openStartRange of
                              Some g1 \<Rightarrow> (Some (Fin 1), parseInt_js g1)
                            | None \<Rightarrow> (Some (Fin 1), Some (Fin maxPages)))))
         else None)"

definition expand_range_js ::
  "int \<Rightarrow> jsnum \<Rightarrow> jsnum \<Rightarrow> jsnum list \<Rightarrow> js_error + jsnum list" where
  "expand_range_js maxPages a0 b0 out =
     (let (a, b) = (if \<not> js_le a0 b0 then (b0, a0) else (a0, b0));
          a = js_max (Fin 1) a;
          b = js_min (Fin maxPages) b
      in push_range_js a b out)"

definition single_value_js :: "int \<Rightarrow> jsstring \<Rightarrow> jsnum list \<Rightarrow> js_error + jsnum list" where
  "single_value_js maxPages part out =
     (case parseInt_js part of
        None \<Rightarrow> Inr out
      | Some n \<Rightarrow>
          if js_le (Fin 1) n \<and> js_le n (Fin maxPages) then push_js out n else Inr out)"

definition part_step_js :: "int \<Rightarrow> jsstring \<Rightarrow> jsnum list \<Rightarrow> js_error + jsnum list" where
  "part_step_js maxPages part out =
     (case range_bounds_js maxPages part of
        Some (a, b) \<Rightarrow>
          (case (a, b) of
             (Some a, Some b) \<Rightarrow> expand_range_js maxPages a b out
           | _ \<Rightarrow> Inr out)
      | None \<Rightarrow> single_value_js maxPages part out)"

fun for_parts_js :: "int \<Rightarrow> jsstring list \<Rightarrow> jsnum list \<Rightarrow> js_error + jsnum list" where
  "for_parts_js maxPages [] out = Inr out"
| "for_parts_js maxPages (part # parts) out =
     (case part_step_js maxPages part out of
        Inl e \<Rightarrow> Inl e
      | Inr out' \<Rightarrow> for_parts_js maxPages parts out')"

fun filter_seen_js :: "jsnum set \<Rightarrow> jsnum list \<Rightarrow> jsnum list" where
  "filter_seen_js seen [] = []"
| "filter_seen_js seen (p # ps) =
     (if p \<in> seen then filter_seen_js seen ps else p # filter_seen_js (insert p seen) ps)"

definition parseRanges_js :: "jsstring \<Rightarrow> int \<Rightarrow> js_error + jsnum list" where
  "parseRanges_js str maxPages =
     (let s = trim str
      in if s = [] then Inr []
         else (case for_parts_js maxPages (parts_of s) [] of
                 Inl e \<Rightarrow> Inl e
               | Inr out \<Rightarrow> Inr (filter_seen_js {} out)))"

section \<open>The loops in closed form\<close>

lemma push_range_upto: "push_range i b out = out @ [i..b]"
proof (induction i b out rule: push_range.induct)
  case (1 i b out)
  show ?case
  proof (cases "i \<le> b")
    case True
    with "1" show ?thesis by (simp add: push_range.simps [of i b out] upto_rec1)
  next
    case False
    then show ?thesis by (simp add: push_range.simps [of i b out])
  qed
qed

lemma expand_range_upto:
  "expand_range N a b out = out @ [max 1 (min a b) .. min N (max a b)]"
proof (cases "b < a")
  case True
  then have "min a b = b" and "max a b = a"
    by simp_all
  with True show ?thesis
    by (simp add: expand_range_def push_range_upto)
next
  case False
  then have "min a b = a" and "max a b = b"
    by simp_all
  with False show ?thesis
    by (simp add: expand_range_def push_range_upto)
qed

lemma single_value_append: "single_value N part out = out @ single_value N part []"
  by (simp add: single_value_def split: option.splits)

lemma part_step_append: "part_step N part out = out @ part_step N part []"
  using single_value_append [of N part out]
  by (simp add: part_step_def expand_range_upto split: option.splits prod.splits)

lemma for_parts_concat:
  "for_parts N parts out = out @ concat (map (\<lambda>part. part_step N part []) parts)"
proof (induction parts arbitrary: out)
  case Nil
  show ?case by simp
next
  case (Cons part parts)
  have "for_parts N (part # parts) out = for_parts N parts (part_step N part out)"
    by simp
  also have "\<dots> = part_step N part out @ concat (map (\<lambda>part. part_step N part []) parts)"
    by (rule Cons.IH)
  also have "part_step N part out = out @ part_step N part []"
    by (rule part_step_append)
  finally show ?case by simp
qed

lemma single_value_bounds: "v \<in> set (single_value N part []) \<Longrightarrow> 1 \<le> v \<and> v \<le> N"
  by (auto simp: single_value_def split: option.splits if_splits)

lemma part_step_bounds: "v \<in> set (part_step N part []) \<Longrightarrow> 1 \<le> v \<and> v \<le> N"
  by (auto simp: part_step_def expand_range_upto dest: single_value_bounds
      split: option.splits prod.splits)

lemma working_bounds: "v \<in> set (working s N) \<Longrightarrow> 1 \<le> v \<and> v \<le> N"
  by (auto simp: working_def for_parts_concat dest: part_step_bounds)

lemma set_filter_seen: "set (filter_seen seen xs) = set xs - seen"
  by (induction xs arbitrary: seen) auto

lemma distinct_filter_seen: "distinct (filter_seen seen xs)"
  by (induction xs arbitrary: seen) (auto simp: set_filter_seen)

lemma filter_seen_append:
  "filter_seen seen (xs @ ys) = filter_seen seen xs @ filter_seen (seen \<union> set xs) ys"
  by (induction xs arbitrary: seen) (auto simp: insert_absorb)

lemma filter_seen_distinct_id:
  "distinct xs \<Longrightarrow> set xs \<inter> seen = {} \<Longrightarrow> filter_seen seen xs = xs"
  by (induction xs arbitrary: seen) auto

lemma working_empty: "working [] N = []"
  by (simp add: working_def parts_of_def trim_def)

lemma parseRanges_working: "parseRanges str N = filter_seen {} (working (trim str) N)"
  by (simp add: parseRanges_def working_empty Let_def)

lemma first_occurrence_snoc:
  "first_occurrence (xs @ [x]) = first_occurrence xs @ (if x \<in> set xs then [] else [x])"
proof -
  let ?f = "\<lambda>i. (xs @ [x]) ! i"
  let ?P = "\<lambda>i. (xs @ [x]) ! i \<notin> set (take i (xs @ [x]))"
  have keep: "filter ?P [0..<length xs] = filter (\<lambda>i. xs ! i \<notin> set (take i xs)) [0..<length xs]"
    by (rule filter_cong) (auto simp: nth_append)
  have pick: "map ?f (filter (\<lambda>i. xs ! i \<notin> set (take i xs)) [0..<length xs])
            = map (\<lambda>i. xs ! i) (filter (\<lambda>i. xs ! i \<notin> set (take i xs)) [0..<length xs])"
    by (rule map_cong) (auto simp: nth_append)
  have old: "map ?f (filter ?P [0..<length xs]) = first_occurrence xs"
    unfolding first_occurrence_def keep pick ..
  have new: "map ?f (filter ?P [length xs]) = (if x \<in> set xs then [] else [x])"
    by simp
  have "first_occurrence (xs @ [x]) = map ?f (filter ?P ([0..<length xs] @ [length xs]))"
    unfolding first_occurrence_def by simp
  also have "\<dots> = map ?f (filter ?P [0..<length xs]) @ map ?f (filter ?P [length xs])"
    by (simp only: filter_append map_append)
  finally show ?thesis
    by (simp only: old new)
qed

lemma filter_seen_first_occurrence: "filter_seen {} xs = first_occurrence xs"
proof (induction xs rule: rev_induct)
  case Nil
  show ?case by (simp add: first_occurrence_def)
next
  case (snoc x xs)
  then show ?case
    by (simp add: filter_seen_append first_occurrence_snoc)
qed

section \<open>Code units and digit runs\<close>

lemma digit_not_ws: "is_digit c \<Longrightarrow> \<not> is_ws c"
  by (simp add: is_digit_def is_ws_def)

lemma digit_not_sign: "is_digit c \<Longrightarrow> c \<noteq> hyphen \<and> c \<noteq> plus_sign \<and> c \<noteq> comma"
  by (auto simp: is_digit_def hyphen_def plus_sign_def comma_def)

lemma hyphen_class: "\<not> is_ws hyphen \<and> \<not> is_digit hyphen \<and> hyphen \<noteq> comma"
  by (simp add: is_digit_def is_ws_def hyphen_def comma_def)

lemma dropWhile_ws_digits:
  assumes "ds \<noteq> []" and "\<forall>c\<in>set ds. is_digit c"
  shows "dropWhile is_ws (ds @ rest) = ds @ rest"
proof -
  from assms obtain d ds' where ds: "ds = d # ds'" and "is_digit d"
    by (cases ds) auto
  then show ?thesis
    by (simp add: digit_not_ws)
qed

lemma takeWhile_digits_stop:
  assumes "\<forall>c\<in>set ds. is_digit c" and "rest = [] \<or> \<not> is_digit (hd rest)"
  shows "takeWhile is_digit (ds @ rest) = ds" and "dropWhile is_digit (ds @ rest) = rest"
proof -
  have t: "takeWhile is_digit rest = []" and d: "dropWhile is_digit rest = rest"
    using assms(2) by (cases rest; simp)+
  show "takeWhile is_digit (ds @ rest) = ds"
    using assms(1) by (simp add: takeWhile_append2 t)
  show "dropWhile is_digit (ds @ rest) = rest"
    using assms(1) by (simp add: dropWhile_append2 d)
qed

lemma parseInt_leading_digits:
  assumes "ds \<noteq> []" and "\<forall>c\<in>set ds. is_digit c" and "rest = [] \<or> \<not> is_digit (hd rest)"
  shows "parseInt (ds @ rest) = Some (digits_val ds)"
proof -
  from assms obtain d ds' where ds: "ds = d # ds'" and d: "is_digit d"
    by (cases ds) auto
  have S: "dropWhile is_ws (ds @ rest) = d # (ds' @ rest)"
    using dropWhile_ws_digits [OF assms(1,2), of rest] by (simp add: ds)
  have Z: "takeWhile is_digit (d # (ds' @ rest)) = ds"
    using takeWhile_digits_stop(1) [OF assms(2,3)] by (simp add: ds)
  show ?thesis
    using digit_not_sign [OF d] d Z assms(1) by (simp add: parseInt_def S Let_def)
qed

lemma parseInt_digits:
  "ds \<noteq> [] \<Longrightarrow> \<forall>c\<in>set ds. is_digit c \<Longrightarrow> parseInt ds = Some (digits_val ds)"
  using parseInt_leading_digits [of ds "[]"] by simp


lemma takeWhile_all: "\<forall>c\<in>set ds. P c \<Longrightarrow> takeWhile P ds = ds"
  by simp

lemma dropWhile_all: "\<forall>c\<in>set ds. P c \<Longrightarrow> dropWhile P ds = []"
  by simp

lemma match_closed_digits:
  assumes "ds \<noteq> []" and "\<forall>c\<in>set ds. is_digit c"
    and "es \<noteq> []" and "\<forall>c\<in>set es. is_digit c"
  shows "match_closed (ds @ hyphen # es) = Some (ds, es)"
proof -
  have g1: "takeWhile is_digit (ds @ hyphen # es) = ds"
    and r1: "dropWhile is_digit (ds @ hyphen # es) = hyphen # es"
    using takeWhile_digits_stop [OF assms(2), of "hyphen # es"] by (simp_all add: hyphen_class)
  have r3: "dropWhile is_ws es = es"
    using dropWhile_ws_digits [OF assms(3,4), of "[]"] by simp
  have g2: "takeWhile is_digit es = es" and r4: "dropWhile is_digit es = []"
    using assms(4) by simp_all
  show ?thesis
    using assms by (simp add: match_closed_def g1 r1 r3 hyphen_class takeWhile_all dropWhile_all)
qed

lemma match_closed_no_second:
  assumes "\<forall>c\<in>set ds. is_digit c" and "\<exists>c\<in>set rest. \<not> is_digit c \<and> \<not> is_ws c"
  shows "match_closed (ds @ hyphen # rest) = None"
proof -
  have g1: "takeWhile is_digit (ds @ hyphen # rest) = ds"
    and r1: "dropWhile is_digit (ds @ hyphen # rest) = hyphen # rest"
    using takeWhile_digits_stop [OF assms(1), of "hyphen # rest"] by (simp_all add: hyphen_class)
  from assms(2) obtain c where c: "c \<in> set rest" "\<not> is_digit c" "\<not> is_ws c"
    by blast
  have "c \<in> set (takeWhile is_ws rest) \<union> set (dropWhile is_ws rest)"
    using c(1) by (metis set_append takeWhile_dropWhile_id)
  then have "c \<in> set (dropWhile is_ws rest)"
    using c(3) by (auto dest: set_takeWhileD)
  then have "dropWhile is_digit (dropWhile is_ws rest) \<noteq> []"
    using c(2) by (auto simp: dropWhile_eq_Nil_conv)
  then show ?thesis
    by (auto simp: match_closed_def g1 r1 hyphen_class Let_def)
qed

lemma match_open_end_no_second:
  assumes "\<forall>c\<in>set ds. is_digit c" and "\<exists>c\<in>set rest. \<not> is_ws c"
  shows "match_open_end (ds @ hyphen # rest) = None"
proof -
  have g1: "takeWhile is_digit (ds @ hyphen # rest) = ds"
    and r1: "dropWhile is_digit (ds @ hyphen # rest) = hyphen # rest"
    using takeWhile_digits_stop [OF assms(1), of "hyphen # rest"] by (simp_all add: hyphen_class)
  have "dropWhile is_ws rest \<noteq> []"
    using assms(2) by (auto simp: dropWhile_eq_Nil_conv)
  then show ?thesis
    by (auto simp: match_open_end_def g1 r1 hyphen_class)
qed

lemma match_open_end_digits:
  assumes "ds \<noteq> []" and "\<forall>c\<in>set ds. is_digit c"
  shows "match_open_end (ds @ [hyphen]) = Some ds" and "match_closed (ds @ [hyphen]) = None"
proof -
  have g1: "takeWhile is_digit (ds @ [hyphen]) = ds"
    and r1: "dropWhile is_digit (ds @ [hyphen]) = [hyphen]"
    using takeWhile_digits_stop [OF assms(2), of "[hyphen]"] by (simp_all add: hyphen_class)
  show "match_open_end (ds @ [hyphen]) = Some ds"
    by (simp add: match_open_end_def g1 r1 hyphen_class assms(1))
  show "match_closed (ds @ [hyphen]) = None"
    by (simp add: match_closed_def g1 r1 hyphen_class)
qed

lemma match_open_start_leading_digit:
  assumes "ds \<noteq> []" and "\<forall>c\<in>set ds. is_digit c"
  shows "match_open_start (ds @ rest) = None"
proof -
  from assms obtain d ds' where ds: "ds = d # ds'" and d: "is_digit d"
    by (cases ds) auto
  show ?thesis
    using digit_not_sign [OF d] digit_not_ws [OF d] by (simp add: match_open_start_def ds)
qed


lemma match_open_start_digits:
  assumes "ds \<noteq> []" and "\<forall>c\<in>set ds. is_digit c"
  shows "match_open_start (hyphen # ds) = Some ds"
    and "match_closed (hyphen # ds) = None" and "match_open_end (hyphen # ds) = None"
proof -
  have r2: "dropWhile is_ws ds = ds"
    using dropWhile_ws_digits [OF assms, of "[]"] by simp
  have g1: "takeWhile is_digit ds = ds" and r3: "dropWhile is_digit ds = []"
    using assms(2) by simp_all
  show "match_open_start (hyphen # ds) = Some ds"
    using assms by (simp add: match_open_start_def hyphen_class r2 takeWhile_all dropWhile_all)
  show "match_closed (hyphen # ds) = None"
    by (simp add: match_closed_def hyphen_class)
  show "match_open_end (hyphen # ds) = None"
    by (simp add: match_open_end_def hyphen_class)
qed

section \<open>The scanners accept the languages of the patterns\<close>






section \<open>One part of each shape\<close>

lemma part_step_closed:
  assumes "ds \<noteq> []" and "\<forall>c\<in>set ds. is_digit c"
    and "es \<noteq> []" and "\<forall>c\<in>set es. is_digit c"
  shows "part_step N (ds @ hyphen # es) out =
         out @ [max 1 (min (digits_val ds) (digits_val es)) ..
                min N (max (digits_val ds) (digits_val es))]"
proof -
  have "range_bounds N (ds @ hyphen # es) = Some (Some (digits_val ds), Some (digits_val es))"
    by (simp add: range_bounds_def match_closed_digits [OF assms]
        parseInt_digits [OF assms(1,2)] parseInt_digits [OF assms(3,4)])
  then show ?thesis
    by (simp add: part_step_def expand_range_upto)
qed

lemma part_step_open_end:
  assumes "ds \<noteq> []" and "\<forall>c\<in>set ds. is_digit c"
  shows "part_step N (ds @ [hyphen]) out =
         out @ [max 1 (min (digits_val ds) N) .. min N (max (digits_val ds) N)]"
proof -
  have "range_bounds N (ds @ [hyphen]) = Some (Some (digits_val ds), Some N)"
    by (simp add: range_bounds_def match_open_end_digits [OF assms] parseInt_digits [OF assms])
  then show ?thesis
    by (simp add: part_step_def expand_range_upto)
qed

lemma part_step_open_start:
  assumes "ds \<noteq> []" and "\<forall>c\<in>set ds. is_digit c"
  shows "part_step N (hyphen # ds) out =
         out @ [max 1 (min 1 (digits_val ds)) .. min N (max 1 (digits_val ds))]"
proof -
  have "range_bounds N (hyphen # ds) = Some (Some 1, Some (digits_val ds))"
    by (simp add: range_bounds_def match_open_start_digits [OF assms] parseInt_digits [OF assms])
  then show ?thesis
    by (simp add: part_step_def expand_range_upto)
qed


lemma part_step_leading_digits:
  assumes "ds \<noteq> []" and "\<forall>c\<in>set ds. is_digit c"
    and "\<exists>c\<in>set rest. \<not> is_digit c \<and> \<not> is_ws c"
  shows "part_step N (ds @ hyphen # rest) out =
         out @ (if 1 \<le> digits_val ds \<and> digits_val ds \<le> N then [digits_val ds] else [])"
proof -
  have ws: "\<exists>c\<in>set rest. \<not> is_ws c"
    using assms(3) by blast
  have "range_bounds N (ds @ hyphen # rest) = None"
    by (simp add: range_bounds_def match_closed_no_second [OF assms(2,3)]
        match_open_end_no_second [OF assms(2) ws] match_open_start_leading_digit [OF assms(1,2)])
  moreover have "parseInt (ds @ hyphen # rest) = Some (digits_val ds)"
    using parseInt_leading_digits [OF assms(1,2), of "hyphen # rest"] by (simp add: hyphen_class)
  ultimately show ?thesis
    by (simp add: part_step_def single_value_def)
qed

lemma split_comma_no_comma: "comma \<notin> set s \<Longrightarrow> split_comma cur s = [cur @ s]"
  by (induction s arbitrary: cur) auto

lemma trim_id:
  assumes "s \<noteq> []" and "\<not> is_ws (hd s)" and "\<not> is_ws (last s)"
  shows "trim s = s"
proof -
  have "dropWhile is_ws s = s"
    using assms(1,2) by (cases s) auto
  moreover have "dropWhile is_ws (rev s) = rev s"
    using assms(1,3) by (cases "rev s") (auto simp: hd_rev [symmetric])
  ultimately show ?thesis
    by (simp add: trim_def)
qed

lemma parseRanges_one_part:
  assumes "part \<noteq> []" and "comma \<notin> set part"
    and "\<not> is_ws (hd part)" and "\<not> is_ws (last part)"
  shows "parseRanges part N = filter_seen {} (part_step N part [])"
proof -
  have t: "trim part = part"
    by (rule trim_id [OF assms(1,3,4)])
  then show ?thesis
    by (simp add: parseRanges_def working_def parts_of_def
        split_comma_no_comma [OF assms(2)] assms(1))
qed

lemma filter_seen_upto: "filter_seen {} [i..j] = [i..j]"
  by (simp add: filter_seen_distinct_id)

lemma digits_no_comma: "\<forall>c\<in>set ds. is_digit c \<Longrightarrow> comma \<notin> set ds"
  using digit_not_sign by blast

lemma digits_ends:
  assumes "ds \<noteq> []" and "\<forall>c\<in>set ds. is_digit c"
  shows "\<not> is_ws (hd ds)" and "\<not> is_ws (last ds)"
  using assms digit_not_ws by auto

lemma parseRanges_closed:
  assumes "ds \<noteq> []" and "\<forall>c\<in>set ds. is_digit c"
    and "es \<noteq> []" and "\<forall>c\<in>set es. is_digit c"
  shows "parseRanges (ds @ hyphen # es) N =
         [max 1 (min (digits_val ds) (digits_val es)) ..
          min N (max (digits_val ds) (digits_val es))]"
proof -
  have "parseRanges (ds @ hyphen # es) N = filter_seen {} (part_step N (ds @ hyphen # es) [])"
  proof (rule parseRanges_one_part)
    show "ds @ hyphen # es \<noteq> []" by simp
    show "comma \<notin> set (ds @ hyphen # es)"
      using digits_no_comma [OF assms(2)] digits_no_comma [OF assms(4)] hyphen_class by auto
    show "\<not> is_ws (hd (ds @ hyphen # es))"
      using digits_ends(1) [OF assms(1,2)] assms(1) by simp
    show "\<not> is_ws (last (ds @ hyphen # es))"
      using digits_ends(2) [OF assms(3,4)] assms(3) by simp
  qed
  then show ?thesis
    by (simp add: part_step_closed [OF assms] filter_seen_upto)
qed

lemma parseRanges_open_end:
  assumes "ds \<noteq> []" and "\<forall>c\<in>set ds. is_digit c"
  shows "parseRanges (ds @ [hyphen]) N =
         [max 1 (min (digits_val ds) N) .. min N (max (digits_val ds) N)]"
proof -
  have "parseRanges (ds @ [hyphen]) N = filter_seen {} (part_step N (ds @ [hyphen]) [])"
  proof (rule parseRanges_one_part)
    show "ds @ [hyphen] \<noteq> []" by simp
    show "comma \<notin> set (ds @ [hyphen])"
      using digits_no_comma [OF assms(2)] hyphen_class by auto
    show "\<not> is_ws (hd (ds @ [hyphen]))"
      using digits_ends(1) [OF assms] assms(1) by simp
    show "\<not> is_ws (last (ds @ [hyphen]))"
      by (simp add: hyphen_class)
  qed
  then show ?thesis
    by (simp add: part_step_open_end [OF assms] filter_seen_upto)
qed

lemma parseRanges_open_start:
  assumes "ds \<noteq> []" and "\<forall>c\<in>set ds. is_digit c"
  shows "parseRanges (hyphen # ds) N =
         [max 1 (min 1 (digits_val ds)) .. min N (max 1 (digits_val ds))]"
proof -
  have "parseRanges (hyphen # ds) N = filter_seen {} (part_step N (hyphen # ds) [])"
  proof (rule parseRanges_one_part)
    show "hyphen # ds \<noteq> []" by simp
    show "comma \<notin> set (hyphen # ds)"
      using digits_no_comma [OF assms(2)] hyphen_class by auto
    show "\<not> is_ws (hd (hyphen # ds))"
      by (simp add: hyphen_class)
    show "\<not> is_ws (last (hyphen # ds))"
      using digits_ends(2) [OF assms] assms(1) by simp
  qed
  then show ?thesis
    by (simp add: part_step_open_start [OF assms] filter_seen_upto)
qed


section \<open>A specification is read segment by segment\<close>

text \<open>
  Trimming the whole string changes no part, since every part is trimmed again; the parts
  of two specifications joined by a comma are the parts of the first followed by the parts
  of the second. So the working sequence of a specification is the concatenation of the
  working sequences of its segments.
\<close>

lemma split_comma_ne: "split_comma cur s \<noteq> []"
  by (induction s arbitrary: cur) auto

lemma split_comma_cur:
  "split_comma cur s = (cur @ hd (split_comma [] s)) # tl (split_comma [] s)"
proof (induction s arbitrary: cur)
  case Nil
  show ?case by simp
next
  case (Cons c cs)
  show ?case
  proof (cases "c = comma")
    case True
    then show ?thesis by simp
  next
    case False
    have "split_comma cur (c # cs) = split_comma (cur @ [c]) cs"
      using False by simp
    also have "\<dots> = ((cur @ [c]) @ hd (split_comma [] cs)) # tl (split_comma [] cs)"
      by (rule Cons.IH)
    also have "split_comma [] (c # cs) = ([c] @ hd (split_comma [] cs)) # tl (split_comma [] cs)"
      using False Cons.IH [of "[c]"] by simp
    ultimately show ?thesis by simp
  qed
qed

lemma split_comma_prefix:
  "comma \<notin> set w \<Longrightarrow> split_comma cur (w @ s) = split_comma (cur @ w) s"
  by (induction w arbitrary: cur) auto

lemma split_comma_suffix:
  "comma \<notin> set w \<Longrightarrow>
   split_comma cur (s @ w) = butlast (split_comma cur s) @ [last (split_comma cur s) @ w]"
proof (induction s arbitrary: cur)
  case Nil
  then show ?case by (simp add: split_comma_no_comma)
next
  case (Cons c cs)
  then show ?case by (simp add: split_comma_ne)
qed

lemma split_comma_append:
  "split_comma cur (xs @ comma # ys) = split_comma cur xs @ split_comma [] ys"
  by (induction xs arbitrary: cur) auto

lemma ws_no_comma: "\<forall>c\<in>set w. is_ws c \<Longrightarrow> comma \<notin> set w"
  by (auto simp: is_ws_def comma_def)

lemma trim_ws_prefix: "\<forall>c\<in>set w. is_ws c \<Longrightarrow> trim (w @ x) = trim x"
  by (simp add: trim_def dropWhile_append2)

lemma trim_ws_suffix:
  assumes "\<forall>c\<in>set w. is_ws c"
  shows "trim (x @ w) = trim x"
proof (cases "\<forall>c\<in>set x. is_ws c")
  case True
  with assms show ?thesis
    by (simp add: trim_def dropWhile_all)
next
  case False
  then obtain c where "c \<in> set x" "\<not> is_ws c"
    by blast
  then have "dropWhile is_ws (x @ w) = dropWhile is_ws x @ w"
    by (simp add: dropWhile_append1)
  moreover have "dropWhile is_ws (rev w @ y) = dropWhile is_ws y" for y
    using assms by (intro dropWhile_append2) simp
  ultimately show ?thesis
    by (simp add: trim_def)
qed

lemma parts_of_ws_prefix:
  assumes "\<forall>c\<in>set w. is_ws c"
  shows "parts_of (w @ s) = parts_of s"
proof -
  have "split_comma [] (w @ s) = (w @ hd (split_comma [] s)) # tl (split_comma [] s)"
    using split_comma_prefix [OF ws_no_comma [OF assms], of "[]" s] split_comma_cur [of w s]
    by simp
  moreover have "split_comma [] s = hd (split_comma [] s) # tl (split_comma [] s)"
    using split_comma_ne [of "[]" s] by simp
  ultimately have "map trim (split_comma [] (w @ s)) = map trim (split_comma [] s)"
    using trim_ws_prefix [OF assms, of "hd (split_comma [] s)"]
    by (metis list.simps(9))
  then show ?thesis
    by (simp add: parts_of_def)
qed

lemma parts_of_ws_suffix:
  assumes "\<forall>c\<in>set w. is_ws c"
  shows "parts_of (s @ w) = parts_of s"
proof -
  let ?xs = "split_comma [] s"
  have "split_comma [] (s @ w) = butlast ?xs @ [last ?xs @ w]"
    by (rule split_comma_suffix [OF ws_no_comma [OF assms]])
  then have "map trim (split_comma [] (s @ w)) = map trim (butlast ?xs) @ [trim (last ?xs)]"
    by (simp add: trim_ws_suffix [OF assms])
  also have "\<dots> = map trim (butlast ?xs @ [last ?xs])"
    by simp
  also have "butlast ?xs @ [last ?xs] = ?xs"
    using split_comma_ne [of "[]" s] by simp
  finally show ?thesis
    by (simp add: parts_of_def)
qed

lemma parts_of_trim: "parts_of (trim s) = parts_of s"
proof -
  let ?s1 = "dropWhile is_ws s"
  let ?s2 = "rev (dropWhile is_ws (rev ?s1))"
  have "?s1 = ?s2 @ rev (takeWhile is_ws (rev ?s1))"
    using takeWhile_dropWhile_id [of is_ws "rev ?s1"] by (metis rev_append rev_rev_ident)
  moreover have "\<forall>c\<in>set (rev (takeWhile is_ws (rev ?s1))). is_ws c"
    by (auto dest: set_takeWhileD)
  ultimately have "parts_of ?s1 = parts_of ?s2"
    using parts_of_ws_suffix by metis
  moreover have "parts_of s = parts_of ?s1"
  proof -
    have "s = takeWhile is_ws s @ ?s1"
      by simp
    moreover have "\<forall>c\<in>set (takeWhile is_ws s). is_ws c"
      by (auto dest: set_takeWhileD)
    ultimately show ?thesis
      using parts_of_ws_prefix by metis
  qed
  ultimately show ?thesis
    by (simp add: trim_def)
qed

lemma parts_of_append: "parts_of (xs @ comma # ys) = parts_of xs @ parts_of ys"
  by (simp add: parts_of_def split_comma_append)

lemma parseRanges_parts:
  "parseRanges str N = filter_seen {} (concat (map (\<lambda>part. part_step N part []) (parts_of str)))"
  by (simp add: parseRanges_working working_def for_parts_concat parts_of_trim)

lemma working_append: "working (xs @ comma # ys) N = working xs N @ working ys N"
  by (simp add: working_def for_parts_concat parts_of_append)


lemma parseRanges_filter_working: "parseRanges str N = filter_seen {} (working str N)"
  by (simp add: parseRanges_parts working_def for_parts_concat)

lemma working_one_segment:
  assumes "comma \<notin> set seg"
  shows "working seg N = (if trim seg = [] then [] else part_step N (trim seg) [])"
  by (simp add: working_def parts_of_def split_comma_no_comma [OF assms])

lemma trim_leading_digits:
  assumes "ds \<noteq> []" and "\<forall>c\<in>set ds. is_digit c" and "\<exists>c\<in>set rest. \<not> is_ws c"
  shows "trim (ds @ hyphen # rest) = ds @ hyphen # rev (dropWhile is_ws (rev rest))"
proof -
  from assms(3) obtain c where c: "c \<in> set (rev rest)" "\<not> is_ws c"
    by auto
  have "dropWhile is_ws (ds @ hyphen # rest) = ds @ hyphen # rest"
    by (rule dropWhile_ws_digits [OF assms(1,2)])
  moreover have "dropWhile is_ws (rev rest @ hyphen # rev ds)
      = dropWhile is_ws (rev rest) @ hyphen # rev ds"
    using c by (rule dropWhile_append1)
  ultimately show ?thesis
    by (simp add: trim_def)
qed

lemma working_leading_digits:
  assumes "ds \<noteq> []" and "\<forall>c\<in>set ds. is_digit c"
    and "\<exists>c\<in>set rest. \<not> is_digit c \<and> \<not> is_ws c" and "comma \<notin> set rest"
  shows "working (ds @ hyphen # rest) N =
         (if 1 \<le> digits_val ds \<and> digits_val ds \<le> N then [digits_val ds] else [])"
proof -
  let ?rest = "rev (dropWhile is_ws (rev rest))"
  from assms(3) obtain c where c: "c \<in> set rest" "\<not> is_digit c" "\<not> is_ws c"
    by blast
  have t: "trim (ds @ hyphen # rest) = ds @ hyphen # ?rest"
    using c by (intro trim_leading_digits [OF assms(1,2)]) blast
  have "c \<in> set (takeWhile is_ws (rev rest)) \<union> set (dropWhile is_ws (rev rest))"
    using c(1) by (metis set_append set_rev takeWhile_dropWhile_id)
  then have "c \<in> set ?rest"
    using c(3) by (auto dest: set_takeWhileD)
  then have r: "\<exists>c\<in>set ?rest. \<not> is_digit c \<and> \<not> is_ws c"
    using c(2,3) by blast
  have "comma \<notin> set (ds @ hyphen # rest)"
    using digits_no_comma [OF assms(2)] hyphen_class assms(4) by auto
  then show ?thesis
    by (simp add: working_one_segment t part_step_leading_digits [OF assms(1,2) r])
qed

section \<open>Rounding to a double\<close>







lemma to_double_not_NegInf: "to_double n \<noteq> NegInf"
  by (auto simp: to_double_def Let_def)


section \<open>The inner loop on JavaScript numbers\<close>





section \<open>The two renderings agree where the array suffices\<close>


















section \<open>Evaluation on concrete inputs\<close>

text \<open>
  The definitions, the closed form of the inner loop and the unfolding of an integer
  interval: what the simplifier needs to run the parser on a literal.
\<close>

lemmas eval_defs = parseRanges_def working_def parts_of_def part_step_def single_value_def
  expand_range_def range_bounds_def match_closed_def match_open_end_def match_open_start_def
  parseInt_def digits_val_def trim_def is_ws_def is_digit_def lit_def comma_def hyphen_def
  plus_sign_def push_range_upto upto_rec1 Let_def


text \<open>
  Where the two renderings differ: at the bound \<open>2\<^sup>5\<^sup>3\<close> the single value
  \<open>9007199254740993\<close> is rounded to the bound by \<open>parseInt\<close> and kept, alone or as the
  leading digits of a longer part, while its exact value lies above the bound.
\<close>

lemma rounded_value_kept:
  "parseRanges_js (lit ''9007199254740993'') 9007199254740992 = Inr [Fin 9007199254740992] \<and>
   parseRanges_js (lit ''9007199254740993-b'') 9007199254740992 = Inr [Fin 9007199254740992] \<and>
   parseRanges (lit ''9007199254740993'') 9007199254740992 = [] \<and>
   parseRanges (lit ''9007199254740993-b'') 9007199254740992 = []"
proof -
  have r: "number_of 9007199254740993 = Fin 9007199254740992"
    by (simp add: number_of_def to_double_def bit_length.simps Let_def)
  show ?thesis
    by (intro conjI;
        simp add: parseRanges_js_def part_step_js_def range_bounds_js_def single_value_js_def
          parseInt_js_def push_js_def max_length_def r eval_defs)
qed

section \<open>The claims\<close>

subsection \<open>C1: the scenarios of the edge-case table\<close>

text \<open>
  Claim C1. \<open>parseRanges\<close> returns, on each input of the edge-case table, the sequence the
  table gives: \<open>"1-3,5,7-8"\<close> with bound 10 gives 1, 2, 3, 5, 7, 8; \<open>" 1, 2 ,2, 3 "\<close> with
  bound 10 gives 1, 2, 3; \<open>"0,1,5,12"\<close> with bound 5 gives 1, 5; \<open>"3-1"\<close> with bound 5
  gives 1, 2, 3; \<open>"7-"\<close> with bound 10 gives 7, 8, 9, 10; \<open>"-3"\<close> with bound 10 gives
  1, 2, 3; the empty string gives the empty sequence; and \<open>"a,1-b,4"\<close> with bound 10 gives
  1, 4.
\<close>

theorem parseRanges_scenarios:
  "parseRanges (lit ''1-3,5,7-8'') 10 = [1, 2, 3, 5, 7, 8] \<and>
   parseRanges (lit '' 1, 2 ,2, 3 '') 10 = [1, 2, 3] \<and>
   parseRanges (lit ''0,1,5,12'') 5 = [1, 5] \<and>
   parseRanges (lit ''3-1'') 5 = [1, 2, 3] \<and>
   parseRanges (lit ''7-'') 10 = [7, 8, 9, 10] \<and>
   parseRanges (lit ''-3'') 10 = [1, 2, 3] \<and>
   parseRanges (lit '''') 10 = [] \<and>
   parseRanges (lit ''a,1-b,4'') 10 = [1, 4]"
  by (intro conjI; simp add: eval_defs)

subsection \<open>C2: a part whose second half is not a number\<close>

text \<open>
  Claim C2 says that a part such as \<open>"1-b"\<close> is rejected as a whole and never read as the
  single value of its leading digits. The code does read it so: the part matches none of the
  three patterns, goes to the single-value branch, and \<open>parseInt\<close> stops at the hyphen
  and returns 1. On \<open>"1-b"\<close> with bound 10 the result is 1 and not the empty sequence, and
  the 1 in the table's result for \<open>"a,1-b,4"\<close> is the page of the part \<open>"1-b"\<close>: without
  that part only 4 is left.
\<close>

theorem second_half_counterexample:
  "parseRanges (lit ''1-b'') 10 \<noteq> [] \<and>
   parseRanges (lit ''1-b'') 10 = [1] \<and>
   parseRanges (lit ''a,1-b,4'') 10 = [1, 4] \<and>
   parseRanges (lit ''a,4'') 10 = [4]"
  by (intro conjI; simp add: eval_defs)

text \<open>
  Claim C2 as amended. A part made of a run of digits, a hyphen and a second half holding a
  code unit that is neither a digit nor white space matches no range pattern and is read by
  the single-value branch, which takes the leading digits: for every bound
  \<open>maxPages < 2\<^sup>5\<^sup>3\<close> the loop body appends their value when it lies between 1 and
  \<open>maxPages\<close> and appends nothing otherwise. Parsing the part alone returns that one page
  or nothing, and in a specification \<open>pre,part,post\<close> the part contributes exactly that to
  the working sequence, between the pages of \<open>pre\<close> and those of \<open>post\<close>. (From
  \<open>2\<^sup>5\<^sup>3\<close> on the code compares the rounded value of the digits, which is not theirs.)
\<close>

theorem leading_digits_kept:
  assumes "ds \<noteq> []" and "\<forall>c\<in>set ds. is_digit c"
    and "\<exists>c\<in>set rest. \<not> is_digit c \<and> \<not> is_ws c"
    and "N < 2 ^ 53"
  shows "part_step N (ds @ hyphen # rest) out =
           out @ (if 1 \<le> digits_val ds \<and> digits_val ds \<le> N then [digits_val ds] else []) \<and>
         (comma \<notin> set rest \<longrightarrow>
            parseRanges (ds @ hyphen # rest) N =
              (if 1 \<le> digits_val ds \<and> digits_val ds \<le> N then [digits_val ds] else []) \<and>
            parseRanges (pre @ comma # (ds @ hyphen # rest) @ comma # post) N =
              filter_seen {}
                (working pre N @
                 (if 1 \<le> digits_val ds \<and> digits_val ds \<le> N then [digits_val ds] else []) @
                 working post N))"
proof (intro conjI impI)
  show "part_step N (ds @ hyphen # rest) out =
      out @ (if 1 \<le> digits_val ds \<and> digits_val ds \<le> N then [digits_val ds] else [])"
    by (rule part_step_leading_digits [OF assms(1,2,3)])
  assume "comma \<notin> set rest"
  then have w: "working (ds @ hyphen # rest) N =
      (if 1 \<le> digits_val ds \<and> digits_val ds \<le> N then [digits_val ds] else [])"
    by (rule working_leading_digits [OF assms(1,2,3)])
  show "parseRanges (ds @ hyphen # rest) N =
      (if 1 \<le> digits_val ds \<and> digits_val ds \<le> N then [digits_val ds] else [])"
    by (simp add: parseRanges_filter_working w)
  have "working (pre @ comma # (ds @ hyphen # rest) @ comma # post) N =
      working pre N @ working (ds @ hyphen # rest) N @ working post N"
    by (simp only: working_append)
  then show "parseRanges (pre @ comma # (ds @ hyphen # rest) @ comma # post) N =
      filter_seen {}
        (working pre N @
         (if 1 \<le> digits_val ds \<and> digits_val ds \<le> N then [digits_val ds] else []) @
         working post N)"
    by (simp only: parseRanges_filter_working w)
qed

theorem leading_digits_kept_witness:
  "part_step 10 (lit ''1-b'') [] = [1] \<and> parseRanges (lit ''1-b'') 10 = [1] \<and>
   parseRanges (lit ''a,1-b,4'') 10 = filter_seen {} (working (lit ''a'') 10 @ [1] @ working (lit ''4'') 10) \<and>
   filter_seen {} (working (lit ''a'') 10 @ [1] @ working (lit ''4'') 10) = [1, 4]"
proof -
  have ds: "lit ''1'' \<noteq> []" "\<forall>c\<in>set (lit ''1''). is_digit c"
    and rest: "\<exists>c\<in>set (lit ''b''). \<not> is_digit c \<and> \<not> is_ws c"
    and token: "comma \<notin> set (lit ''b'')"
    by (simp_all add: lit_def is_digit_def is_ws_def comma_def)
  have tok: "lit ''1'' @ hyphen # lit ''b'' = lit ''1-b''"
    "lit ''a'' @ comma # lit ''1-b'' @ comma # lit ''4'' = lit ''a,1-b,4''"
    and val: "digits_val (lit ''1'') = 1"
    by (simp_all add: lit_def hyphen_def comma_def digits_val_def)
  have e: "filter_seen {} (working (lit ''a'') 10 @ [1] @ working (lit ''4'') 10) = [1, 4]"
    by (simp add: eval_defs)
  have bound: "(10::int) < 2 ^ 53"
    by simp
  note th = leading_digits_kept [OF ds rest bound, of "[]" "lit ''a''" "lit ''4''", unfolded tok val]
  show ?thesis
    using th token e by simp
qed

subsection \<open>C3: the bounds of the result\<close>

text \<open>
  Claim C3. For every specification and every bound, every page \<open>v\<close> of the result
  satisfies \<open>1 \<le> v \<le> maxPages\<close>; with the bound 0 the result is empty. (The bound need
  not even be non-negative.)
\<close>

theorem parseRanges_bounds:
  "(\<forall>v\<in>set (parseRanges str N). 1 \<le> v \<and> v \<le> N) \<and> parseRanges str 0 = []"
proof
  show "\<forall>v\<in>set (parseRanges str N). 1 \<le> v \<and> v \<le> N"
    by (auto simp: parseRanges_working set_filter_seen dest: working_bounds)
  have "v \<notin> set (working (trim str) 0)" for v
    using working_bounds [of v "trim str" 0] by auto
  then have "working (trim str) 0 = []"
    by (cases "working (trim str) 0") auto
  then show "parseRanges str 0 = []"
    by (simp add: parseRanges_working)
qed

theorem parseRanges_bounds_witness:
  "list_all (\<lambda>v. 1 \<le> v \<and> v \<le> 5) (parseRanges (lit ''0-9,12'') 5) \<and>
   parseRanges (lit ''0-9,12'') 5 = [1, 2, 3, 4, 5] \<and>
   parseRanges (lit ''0-9,12'') 0 = []"
proof -
  have "\<forall>v\<in>set (parseRanges (lit ''0-9,12'') 5). 1 \<le> v \<and> v \<le> 5"
    and "parseRanges (lit ''0-9,12'') 0 = []"
    using parseRanges_bounds [of "lit ''0-9,12''" 5] by blast+
  moreover have "parseRanges (lit ''0-9,12'') 5 = [1, 2, 3, 4, 5]"
    by (simp add: eval_defs)
  ultimately show ?thesis
    by (simp add: list_all_iff)
qed

subsection \<open>C4: totality\<close>




subsection \<open>C5: ranges are clamped, single values are dropped\<close>



subsection \<open>C6: a range may be written in either direction\<close>

text \<open>
  Claim C6. For all runs of digits \<open>ds\<close> and \<open>es\<close> (the numerals of any two non-negative
  integers, leading zeros allowed) and every bound, \<open>ds-es\<close> and \<open>es-ds\<close> parse to the
  same sequence.
\<close>

theorem range_symmetry:
  assumes "ds \<noteq> []" and "\<forall>c\<in>set ds. is_digit c"
    and "es \<noteq> []" and "\<forall>c\<in>set es. is_digit c"
  shows "parseRanges (ds @ hyphen # es) N = parseRanges (es @ hyphen # ds) N"
  by (simp add: parseRanges_closed [OF assms] parseRanges_closed [OF assms(3,4,1,2)]
      min.commute max.commute)

theorem range_symmetry_witness:
  "parseRanges (lit ''3-1'') 5 = parseRanges (lit ''1-3'') 5"
proof -
  have d1: "lit ''1'' \<noteq> []" "\<forall>c\<in>set (lit ''1''). is_digit c"
    and d3: "lit ''3'' \<noteq> []" "\<forall>c\<in>set (lit ''3''). is_digit c"
    by (simp_all add: lit_def is_digit_def)
  have tok: "lit ''3'' @ hyphen # lit ''1'' = lit ''3-1''"
    "lit ''1'' @ hyphen # lit ''3'' = lit ''1-3''"
    by (simp_all add: lit_def hyphen_def)
  show ?thesis
    using range_symmetry [OF d3 d1, of 5] by (simp only: tok)
qed

subsection \<open>C7: open ranges\<close>

text \<open>
  Claim C7. Let \<open>ks\<close> be a numeral of \<open>k\<close> and \<open>ns\<close> a numeral of the bound \<open>N\<close>,
  with \<open>1 \<le> k \<le> N\<close>. Then \<open>k-\<close> parses as \<open>k-N\<close> does, and \<open>-k\<close> parses as
  \<open>1-k\<close> does; the results are \<open>k .. N\<close> and \<open>1 .. k\<close>.
\<close>

theorem open_range_equivalence:
  assumes "ks \<noteq> []" and "\<forall>c\<in>set ks. is_digit c"
    and "ns \<noteq> []" and "\<forall>c\<in>set ns. is_digit c" and "digits_val ns = N"
    and "1 \<le> digits_val ks" and "digits_val ks \<le> N"
  shows "parseRanges (ks @ [hyphen]) N = parseRanges (ks @ hyphen # ns) N \<and>
         parseRanges (hyphen # ks) N = parseRanges (lit ''1'' @ hyphen # ks) N \<and>
         parseRanges (ks @ [hyphen]) N = [digits_val ks .. N] \<and>
         parseRanges (hyphen # ks) N = [1 .. digits_val ks]"
proof -
  have one: "lit ''1'' \<noteq> []" "\<forall>c\<in>set (lit ''1''). is_digit c" and v1: "digits_val (lit ''1'') = 1"
    by (simp_all add: lit_def is_digit_def digits_val_def)
  have "parseRanges (ks @ [hyphen]) N = [digits_val ks .. N]"
    using assms(6,7) by (simp add: parseRanges_open_end [OF assms(1,2)])
  moreover have "parseRanges (ks @ hyphen # ns) N = [digits_val ks .. N]"
    using assms(5,6,7) by (simp add: parseRanges_closed [OF assms(1,2,3,4)])
  moreover have "parseRanges (hyphen # ks) N = [1 .. digits_val ks]"
    using assms(6,7) by (simp add: parseRanges_open_start [OF assms(1,2)])
  moreover have "parseRanges (lit ''1'' @ hyphen # ks) N = [1 .. digits_val ks]"
    using assms(6,7) by (simp add: parseRanges_closed [OF one assms(1,2)] v1)
  ultimately show ?thesis
    by simp
qed

theorem open_range_equivalence_witness:
  "parseRanges (lit ''7-'') 10 = parseRanges (lit ''7-10'') 10 \<and>
   parseRanges (lit ''-7'') 10 = parseRanges (lit ''1-7'') 10 \<and>
   parseRanges (lit ''7-'') 10 = [7, 8, 9, 10] \<and>
   parseRanges (lit ''-7'') 10 = [1, 2, 3, 4, 5, 6, 7]"
proof -
  have k: "lit ''7'' \<noteq> []" "\<forall>c\<in>set (lit ''7''). is_digit c"
    and n: "lit ''10'' \<noteq> []" "\<forall>c\<in>set (lit ''10''). is_digit c"
    by (simp_all add: lit_def is_digit_def)
  have val: "digits_val (lit ''10'') = 10" "1 \<le> digits_val (lit ''7'')"
    "digits_val (lit ''7'') \<le> 10"
    by (simp_all add: lit_def digits_val_def)
  have v7: "digits_val (lit ''7'') = 7"
    by (simp add: lit_def digits_val_def)
  have tok: "lit ''7'' @ [hyphen] = lit ''7-''" "lit ''7'' @ hyphen # lit ''10'' = lit ''7-10''"
    "hyphen # lit ''7'' = lit ''-7''" "lit ''1'' @ lit ''-7'' = lit ''1-7''"
    by (simp_all add: lit_def hyphen_def)
  have e: "[7..10] = [7, 8, 9, 10::int]" "[1..7] = [1, 2, 3, 4, 5, 6, 7::int]"
    by (simp_all add: upto_rec1)
  show ?thesis
    using open_range_equivalence [OF k n val, unfolded tok v7 e] .
qed

subsection \<open>C8: deduplication in first-occurrence order\<close>

text \<open>
  Claim C8. The result has no repeated page; it is the first-occurrence deduplication, in
  the specification's sense, of the working sequence \<open>out\<close>; deduplicating it once more
  changes nothing; and where a page \<open>v\<close> is produced for the first time after the entries
  \<open>pre\<close> of the working sequence, the result is the deduplication of \<open>pre\<close>, then
  \<open>v\<close>, then later pages among which \<open>v\<close> does not occur again: the entries before
  \<open>v\<close> depend on \<open>pre\<close> alone.
\<close>

theorem parseRanges_dedup:
  "distinct (parseRanges str N) \<and>
   parseRanges str N = first_occurrence (working (trim str) N) \<and>
   first_occurrence (parseRanges str N) = parseRanges str N \<and>
   (working (trim str) N = pre @ v # post \<and> v \<notin> set pre \<longrightarrow>
      parseRanges str N = first_occurrence pre @ v # filter_seen (insert v (set pre)) post \<and>
      v \<notin> set (filter_seen (insert v (set pre)) post))"
proof (intro conjI impI)
  show d: "distinct (parseRanges str N)"
    by (simp add: parseRanges_working distinct_filter_seen)
  show "parseRanges str N = first_occurrence (working (trim str) N)"
    by (simp add: parseRanges_working filter_seen_first_occurrence)
  have "filter_seen {} (parseRanges str N) = parseRanges str N"
    using d by (simp add: filter_seen_distinct_id)
  then show "first_occurrence (parseRanges str N) = parseRanges str N"
    by (simp add: filter_seen_first_occurrence)
  show "v \<notin> set (filter_seen (insert v (set pre)) post)"
    by (simp add: set_filter_seen)
  assume w: "working (trim str) N = pre @ v # post \<and> v \<notin> set pre"
  then have "parseRanges str N = filter_seen {} pre @ filter_seen (set pre) (v # post)"
    by (simp add: parseRanges_working filter_seen_append)
  with w show "parseRanges str N = first_occurrence pre @ v # filter_seen (insert v (set pre)) post"
    by (simp add: filter_seen_first_occurrence)
qed

theorem parseRanges_dedup_witness:
  "working (lit ''3,1-4,3'') 10 = [3, 1, 2, 3, 4, 3] \<and>
   parseRanges (lit ''3,1-4,3'') 10 = [3, 1, 2, 4] \<and>
   distinct (parseRanges (lit ''3,1-4,3'') 10) \<and>
   first_occurrence (parseRanges (lit ''3,1-4,3'') 10) = parseRanges (lit ''3,1-4,3'') 10 \<and>
   parseRanges (lit ''3,1-4,3'') 10 = first_occurrence [3, 1] @ 2 # filter_seen {2, 3, 1} [3, 4, 3]"
proof -
  have t: "trim (lit ''3,1-4,3'') = lit ''3,1-4,3''"
    by (simp add: eval_defs)
  have w: "working (lit ''3,1-4,3'') 10 = [3, 1, 2, 3, 4, 3]"
    by (simp add: eval_defs)
  have p: "parseRanges (lit ''3,1-4,3'') 10 = [3, 1, 2, 4]"
    by (simp add: eval_defs)
  have split: "working (lit ''3,1-4,3'') 10 = [3, 1] @ 2 # [3, 4, 3] \<and> (2::int) \<notin> set [3, 1]"
    by (simp add: w)
  have s: "insert 2 (set [3, 1]) = {2, 3, 1::int}"
    by simp
  note th = parseRanges_dedup [of "lit ''3,1-4,3''" 10 "[3, 1]" 2 "[3, 4, 3]", unfolded t s]
  from th have a: "distinct (parseRanges (lit ''3,1-4,3'') 10)"
    and b: "first_occurrence (parseRanges (lit ''3,1-4,3'') 10) = parseRanges (lit ''3,1-4,3'') 10"
    by blast+
  from th split have c: "parseRanges (lit ''3,1-4,3'') 10 =
      first_occurrence [3, 1] @ 2 # filter_seen {2, 3, 1} [3, 4, 3]"
    by blast
  show ?thesis
    by (intro conjI w p a b c)
qed

subsection \<open>C10: the copy in src/app.js\<close>

text \<open>
  Claim C10 says that the copy of \<open>parseRanges\<close> in src/app.js computes the same function
  as the standalone module. It does not. The copy implements the closed format that its
  comment names and has neither the open-ended nor the open-start pattern, so it reads
  \<open>"7-"\<close> as the single value 7 and \<open>"-3"\<close> as the single value \<open>-3\<close>, which it drops,
  where the module returns 7, 8, 9, 10 and 1, 2, 3 (bound 10).
\<close>

theorem app_copy_diverges:
  "parseRanges_app (lit ''7-'') 10 = [7] \<and> parseRanges (lit ''7-'') 10 = [7, 8, 9, 10] \<and>
   parseRanges_app (lit ''-3'') 10 = [] \<and> parseRanges (lit ''-3'') 10 = [1, 2, 3]"
  by (intro conjI; simp add: eval_defs parseRanges_app_def part_step_app_def)

lemma part_step_app_eq:
  assumes "match_open_end part = None" and "match_open_start part = None"
  shows "part_step_app N part out = part_step N part out"
  using assms
  by (cases "match_closed part")
    (auto simp: part_step_app_def part_step_def range_bounds_def split: option.splits)

lemma for_parts_app_eq:
  "\<forall>part\<in>set parts. match_open_end part = None \<and> match_open_start part = None \<Longrightarrow>
   for_parts_app N parts out = for_parts N parts out"
  by (induction parts arbitrary: out) (simp_all add: part_step_app_eq)

text \<open>
  Claim C10 as amended. For every specification none of whose parts matches the open-ended
  or the open-start pattern, and every bound, the two definitions return the same sequence.
\<close>

theorem app_copy_agrees:
  assumes "\<forall>part\<in>set (parts_of (trim str)).
             match_open_end part = None \<and> match_open_start part = None"
  shows "parseRanges_app str N = parseRanges str N"
  using for_parts_app_eq [OF assms]
  by (simp add: parseRanges_app_def parseRanges_def working_def Let_def)

theorem app_copy_agrees_witness:
  "parseRanges_app (lit ''1-3,5,7-8'') 10 = parseRanges (lit ''1-3,5,7-8'') 10"
proof -
  have "\<forall>part\<in>set (parts_of (trim (lit ''1-3,5,7-8''))).
          match_open_end part = None \<and> match_open_start part = None"
    by (simp add: eval_defs)
  then show ?thesis
    by (rule app_copy_agrees)
qed

end
